theory Spec2Isabelle
  imports Complex_Main "HOL-Library.Log_Nat" "HOL-Library.Word" "HOL-Library.AList"
begin

section \<open>img2dmg: the conversion core of \<^verbatim>\<open>src/App.tsx\<close>\<close>

text \<open>
  The theory embeds the functions of \<^verbatim>\<open>src/App.tsx\<close> that carry the behaviour of the
  application: the file-name helpers, the pixel loop of \<^verbatim>\<open>convertToDmg\<close>, the ingestion
  of dropped files and archives, the job list with its single-consumer watcher, the
  palette-mode reset and the export naming. All definitions come first, the theorems
  follow.
\<close>

subsection \<open>Strings\<close>

text \<open>
  File names are modelled as \<^typ>\<open>string\<close>. \<^verbatim>\<open>String.prototype.toLowerCase\<close> is modelled on
  the ASCII letters; every other character is left as it is.
\<close>

definition lowerChar :: "char \<Rightarrow> char" where
  "lowerChar c =
     (let n = (of_char c :: nat)
      in if 65 \<le> n \<and> n \<le> 90 then char_of (n + 32) else c)"

definition toLowerCase :: "string \<Rightarrow> string" where
  "toLowerCase s = map lowerChar s"

text \<open>
  \<^verbatim>\<open>s.split(".")\<close>: the pieces between the dots. The result is never empty: a string
  without a dot (the empty string too) gives the one-element array holding that string.
\<close>

fun split_dot :: "string \<Rightarrow> string list" where
  "split_dot [] = [[]]"
| "split_dot (c # cs) =
     (if c = CHR ''.'' then [] # split_dot cs
      else (case split_dot cs of
              [] \<Rightarrow> [[c]]
            | p # ps \<Rightarrow> (c # p) # ps))"

text \<open>\<^verbatim>\<open>Array.prototype.pop\<close>: the last element and the remaining array; \<^verbatim>\<open>undefined\<close> on
  the empty array.\<close>

definition pop :: "'a list \<Rightarrow> 'a option \<times> 'a list" where
  "pop xs = (if xs = [] then (None, []) else (Some (last xs), butlast xs))"

text \<open>\<^verbatim>\<open>parts.join(".")\<close>.\<close>

fun join_dot :: "string list \<Rightarrow> string" where
  "join_dot [] = []"
| "join_dot [p] = p"
| "join_dot (p # q # ps) = p @ CHR ''.'' # join_dot (q # ps)"

subsection \<open>File-name helpers\<close>

text \<open>
  \<^verbatim>\<open>const extFromName = (name) => name.toLowerCase().split(".").pop() ?? "";\<close>
\<close>

definition extFromName :: "string \<Rightarrow> string" where
  "extFromName nm =
     (case fst (pop (split_dot (toLowerCase nm))) of
        None \<Rightarrow> []
      | Some e \<Rightarrow> e)"

text \<open>
  \<^verbatim>\<open>const baseName = (name) => { const parts = name.split("."); parts.pop();
  return parts.join(".") || name; };\<close>
  The empty string is falsy, so an empty joined prefix falls back to the whole name.
\<close>

definition baseName :: "string \<Rightarrow> string" where
  "baseName nm =
     (let parts = snd (pop (split_dot nm));
          joined = join_dot parts
      in if joined = [] then nm else joined)"

definition SUPPORTED_EXTS :: "string list" where
  "SUPPORTED_EXTS = [''png'', ''jpg'', ''jpeg'', ''webp'']"

definition isSupportedExt :: "string \<Rightarrow> bool" where
  "isSupportedExt e = (e \<in> set SUPPORTED_EXTS)"


text \<open>
  The spec's words for the same two notions, for comparison with the code: the
  extension is the lowercased substring after the last dot, and the empty string when
  the name has no dot; the base name is the name without its final extension, that is,
  without its last dot and what follows it.
\<close>

definition after_last_dot :: "string \<Rightarrow> string" where
  "after_last_dot s = rev (takeWhile (\<lambda>c. c \<noteq> CHR ''.'') (rev s))"

definition before_last_dot :: "string \<Rightarrow> string" where
  "before_last_dot s = rev (tl (dropWhile (\<lambda>c. c \<noteq> CHR ''.'') (rev s)))"

definition spec_extension :: "string \<Rightarrow> string" where
  "spec_extension nm =
     (if CHR ''.'' \<in> set nm then toLowerCase (after_last_dot nm) else [])"

definition spec_without_extension :: "string \<Rightarrow> string" where
  "spec_without_extension nm =
     (if CHR ''.'' \<in> set nm then before_last_dot nm else nm)"

subsection \<open>JavaScript numbers\<close>

text \<open>
  A finite JavaScript number is modelled by the rational it denotes. Every literal and
  every arithmetic operation of the source yields the exact result rounded to the nearest
  IEEE-754 binary64 value, ties to the even significand: \<open>fl\<close> is that rounding. The
  spacing of the doubles around \<open>x\<close> is \<open>ulp x\<close>: \<open>2\<close> to the power \<open>e - 52\<close> when
  the magnitude of \<open>x\<close> lies between \<open>2\<close> to the \<open>e\<close> and \<open>2\<close> to the \<open>e + 1\<close>, and
  \<open>2\<close> to the \<open>-1074\<close> below the normal range. Overflow to \<^verbatim>\<open>Infinity\<close> is not
  modelled; no value of the pixel loop reaches \<open>256\<close>.
\<close>

definition roundTiesToEven :: "rat \<Rightarrow> int" where
  "roundTiesToEven x =
     (let f = \<lfloor>x\<rfloor>; d = x - of_int f
      in if d < 1 / 2 then f
         else if 1 / 2 < d then f + 1
         else if even f then f else f + 1)"

fun doublings :: "nat \<Rightarrow> rat \<Rightarrow> nat" where
  "doublings 0 x = 0"
| "doublings (Suc n) x = (if 1 \<le> x then 0 else Suc (doublings n (2 * x)))"

definition ulp :: "rat \<Rightarrow> rat" where
  "ulp x =
     (let a = \<bar>x\<bar>
      in if 1 \<le> a then 2 powi (bitlen \<lfloor>a\<rfloor> - 53)
         else 2 powi (- int (doublings 1022 a) - 52))"

definition fl :: "rat \<Rightarrow> rat" where
  "fl x = of_int (roundTiesToEven (x / ulp x)) * ulp x"

subsection \<open>The palettes and the pixel loop of \<^verbatim>\<open>convertToDmg\<close>\<close>

record shade =
  r :: nat
  g :: nat
  b :: nat

type_synonym palette = "shade list"

definition DMG_PALETTE :: palette where
  "DMG_PALETTE =
     [\<lparr>r = 15, g = 56, b = 15\<rparr>,
      \<lparr>r = 48, g = 98, b = 48\<rparr>,
      \<lparr>r = 139, g = 172, b = 15\<rparr>,
      \<lparr>r = 155, g = 188, b = 15\<rparr>]"


text \<open>
  \<^verbatim>\<open>const lum = 0.2126 * data[i] + 0.7152 * data[i + 1] + 0.0722 * data[i + 2];\<close>
  evaluated left to right, every literal, product and sum rounded.
\<close>

definition lum :: "nat \<Rightarrow> nat \<Rightarrow> nat \<Rightarrow> rat" where
  "lum cr cg cb =
     fl (fl (fl (fl (2126 / 10000) * of_nat cr) + fl (fl (7152 / 10000) * of_nat cg))
         + fl (fl (722 / 10000) * of_nat cb))"

text \<open>\<^verbatim>\<open>const level = Math.min(3, Math.max(0, Math.floor(lum / 64)));\<close>\<close>

definition level :: "nat \<Rightarrow> nat \<Rightarrow> nat \<Rightarrow> nat" where
  "level cr cg cb = nat (min 3 (max 0 \<lfloor>fl (lum cr cg cb / 64)\<rfloor>))"

text \<open>
  The pixel buffer is a \<^verbatim>\<open>Uint8ClampedArray\<close>: a flat array of bytes, four per pixel in
  the order red, green, blue, alpha. Reading beyond the end gives \<^verbatim>\<open>undefined\<close>; a
  number stored into it is clamped to \<open>255\<close>.
\<close>

type_synonym pixels = "8 word list"

definition rd :: "pixels \<Rightarrow> nat \<Rightarrow> nat option" where
  "rd data j = (if j < length data then Some (unat (data ! j)) else None)"

definition clamp8 :: "nat \<Rightarrow> 8 word" where
  "clamp8 v = of_nat (min 255 v)"

datatype js_error = TypeError

text \<open>
  The loop \<^verbatim>\<open>for (let i = 0; i < data.length; i += 4)\<close>. A pixel whose alpha is \<open>0\<close> is
  skipped. An undefined colour channel makes \<^verbatim>\<open>lum\<close> and \<^verbatim>\<open>level\<close> \<^verbatim>\<open>NaN\<close>, so that
  \<^verbatim>\<open>palette[level]\<close> is undefined and \<^verbatim>\<open>shade.r\<close> throws; so does a palette shorter than
  the level.
\<close>

function convertLoop :: "palette \<Rightarrow> nat \<Rightarrow> pixels \<Rightarrow> js_error + pixels" where
  "convertLoop pal i data =
     (if i < length data then
        (if rd data (i + 3) = Some 0 then convertLoop pal (i + 4) data
         else
           (case (rd data i, rd data (i + 1), rd data (i + 2)) of
              (Some cr, Some cg, Some cb) \<Rightarrow>
                (let lv = level cr cg cb
                 in if lv < length pal then
                      (let sh = pal ! lv
                       in convertLoop pal (i + 4)
                            (data[i := clamp8 (r sh), i + 1 := clamp8 (g sh),
                                  i + 2 := clamp8 (b sh)]))
                    else Inl TypeError)
            | _ \<Rightarrow> Inl TypeError))
      else Inr data)"
  by pat_completeness auto
termination
  by (relation "measure (\<lambda>(pal, i, data). length data - i)") auto

declare convertLoop.simps [simp del]

definition quantize :: "palette \<Rightarrow> pixels \<Rightarrow> js_error + pixels" where
  "quantize pal data = convertLoop pal 0 data"



subsection \<open>Files, jobs and the application state\<close>

datatype status = Queued | Processing | Done | Error

datatype paletteMode = Dmg | Gray

text \<open>A browser \<^verbatim>\<open>File\<close>: its name, its MIME type and its bytes.\<close>

record File =
  fname :: string
  ftype :: string
  fbytes :: "8 word list"

text \<open>
  The type \<^verbatim>\<open>Item\<close>. The fields \<^verbatim>\<open>id\<close> and \<^verbatim>\<open>file\<close> are named \<open>item_id\<close> and \<open>item_file\<close> here. An object URL is a
  handle, modelled as a number; it is a non-empty string in the browser, so the test
  \<^verbatim>\<open>if (item.blobUrl)\<close> is the test that the field is present.
\<close>

record item =
  item_id :: nat
  name :: string
  ext :: string
  item_file :: File
  status :: status
  blobUrl :: "nat option"
  width :: "nat option"
  height :: "nat option"
  error :: "string option"
  selected :: bool

text \<open>
  The React state of \<^verbatim>\<open>App\<close> as the last render committed it (\<open>items\<close>,
  \<open>paletteMode\<close>, \<open>busy\<close>, \<open>message\<close>), and the part of the environment the
  functions act on:
  \<^item> \<open>nextId\<close>: the identifiers handed out by \<^verbatim>\<open>crypto.randomUUID\<close> (a counter: every
    call gives a new one);
  \<^item> \<open>revoked\<close>: the object URLs released by \<^verbatim>\<open>URL.revokeObjectURL\<close>, in the order of
    the calls;
  \<^item> \<open>pending\<close>: the identifiers of the jobs whose \<^verbatim>\<open>convertToDmg\<close> promise has not
    settled yet, one entry per promise;
  \<^item> \<open>scheduled\<close>: the state updates that the watcher effect has queued and that no
    render has applied yet, one identifier per run of the effect that started a job: the
    pair \<^verbatim>\<open>setBusy(true)\<close> and \<^verbatim>\<open>setItems\<close> marking that job as processing;
  \<^item> \<open>effectDue\<close>: a render with a new \<open>busy\<close> or a new \<open>items\<close> array has been
    committed and the watcher effect, whose dependencies they are, has not run for it.
    Every call of \<^verbatim>\<open>setItems\<close> in the source builds a new array.
\<close>

record state =
  items :: "item list"
  paletteMode :: paletteMode
  busy :: bool
  message :: "string option"
  nextId :: nat
  revoked :: "nat list"
  pending :: "nat list"
  scheduled :: "nat list"
  effectDue :: bool

definition initial :: state where
  "initial =
     \<lparr>items = [], paletteMode = Dmg, busy = False, message = None,
      nextId = 0, revoked = [], pending = [], scheduled = [], effectDue = True\<rparr>"


definition doneItems :: "state \<Rightarrow> item list" where
  "doneItems s = filter (\<lambda>it. status it = Done) (items s)"

definition selectedItems :: "state \<Rightarrow> item list" where
  "selectedItems s = filter selected (doneItems s)"

text \<open>\<^verbatim>\<open>setToast\<close>; the timer that clears the message later is not modelled.\<close>

definition setToast :: "string \<Rightarrow> state \<Rightarrow> state" where
  "setToast text s = s\<lparr>message := Some text\<rparr>"

text \<open>The object URLs that a pass over the given items releases.\<close>

definition urlsOf :: "item list \<Rightarrow> nat list" where
  "urlsOf its = List.map_filter blobUrl its"

subsection \<open>Ingestion\<close>

text \<open>\<^verbatim>\<open>enqueueFiles\<close>: one queued, unselected item per file, appended to the list.\<close>

definition newItem :: "nat \<Rightarrow> File \<Rightarrow> item" where
  "newItem n f =
     \<lparr>item_id = n, name = fname f, ext = extFromName (fname f), item_file = f,
      status = Queued, blobUrl = None, width = None, height = None, error = None,
      selected = False\<rparr>"

definition enqueueFiles :: "File list \<Rightarrow> state \<Rightarrow> state" where
  "enqueueFiles files s =
     s\<lparr>items := items s @ map2 newItem [nextId s ..< nextId s + length files] files,
       nextId := nextId s + length files, effectDue := True\<rparr>"



text \<open>
  An asynchronous function either resolves or rejects; both leave a state behind.
\<close>

datatype outcome = Resolved state | Rejected state

definition stateOf :: "outcome \<Rightarrow> state" where
  "stateOf out = (case out of Resolved s \<Rightarrow> s | Rejected s \<Rightarrow> s)"





subsection \<open>The queue watcher\<close>

text \<open>
  The updater \<^verbatim>\<open>prev.map((item) => item.id === next.id ? { ...item, status:
  "processing" } : item)\<close>.
\<close>

definition markProcessing :: "nat \<Rightarrow> item list \<Rightarrow> item list" where
  "markProcessing n its =
     map (\<lambda>it. if item_id it = n then it\<lparr>status := Processing\<rparr> else it) its"

text \<open>
  A render that applies the updates the watcher effect has queued, in the order of the
  queue: \<open>busy\<close> becomes true and the jobs are marked.
\<close>

definition applyQueued :: "state \<Rightarrow> state" where
  "applyQueued s =
     (if scheduled s = [] then s
      else s\<lparr>busy := True, items := fold markProcessing (scheduled s) (items s),
             scheduled := [], effectDue := True\<rparr>)"

text \<open>
  The effect on \<open>busy\<close> and \<open>items\<close>. It runs after a commit that changed one of them,
  and it reads the \<open>busy\<close> and the \<open>items\<close> of that render: when \<open>busy\<close> is false there
  and some item is queued there, it takes the first one, calls \<^verbatim>\<open>setBusy(true)\<close> and
  \<^verbatim>\<open>setItems\<close> with the marking updater, which only queues the two updates, and starts
  \<^verbatim>\<open>convertToDmg\<close> for that job. Until a render applies the queued updates, the
  committed state still shows an idle processor and a queued job.
\<close>

definition watcher :: "state \<Rightarrow> state" where
  "watcher s =
     (if \<not> effectDue s then s
      else if busy s then s\<lparr>effectDue := False\<rparr>
      else (case find (\<lambda>it. status it = Queued) (items s) of
              None \<Rightarrow> s\<lparr>effectDue := False\<rparr>
            | Some nxt \<Rightarrow>
                s\<lparr>effectDue := False,
                  scheduled := scheduled s @ [item_id nxt],
                  pending := pending s @ [item_id nxt]\<rparr>))"

text \<open>
  The promise of job \<open>n\<close> resolves with an object URL \<open>u\<close> for the encoded image and its
  size: the \<^verbatim>\<open>then\<close> callback stores the result in the items with that identifier,
  releasing a URL they held, and \<^verbatim>\<open>finally\<close> clears \<open>busy\<close>. The render that applies
  these two updates applies the updates queued before them first.
\<close>

definition conversionDone :: "nat \<Rightarrow> nat \<Rightarrow> nat \<Rightarrow> nat \<Rightarrow> state \<Rightarrow> state" where
  "conversionDone n u w h s =
     (if n \<in> set (pending s) then
        (let t = applyQueued s
         in t\<lparr>items := map (\<lambda>it. if item_id it \<noteq> n then it
                                  else it\<lparr>status := Done, blobUrl := Some u,
                                          width := Some w, height := Some h\<rparr>) (items t),
               revoked := revoked t @ urlsOf (filter (\<lambda>it. item_id it = n) (items t)),
               busy := False,
               pending := remove1 n (pending t),
               effectDue := True\<rparr>)
      else s)"

text \<open>The promise rejects with an error whose message is \<open>msg\<close>: the \<^verbatim>\<open>catch\<close> callback
  records it, and \<^verbatim>\<open>finally\<close> clears \<open>busy\<close>.\<close>

definition conversionFailed :: "nat \<Rightarrow> string \<Rightarrow> state \<Rightarrow> state" where
  "conversionFailed n msg s =
     (if n \<in> set (pending s) then
        (let t = applyQueued s
         in t\<lparr>items := map (\<lambda>it. if item_id it = n
                                  then it\<lparr>status := Error, error := Some msg\<rparr> else it)
                           (items t),
               busy := False,
               pending := remove1 n (pending t),
               effectDue := True\<rparr>)
      else s)"

subsection \<open>The palette-mode reset\<close>

text \<open>
  The effect that runs when \<open>paletteMode\<close> has changed: every item is mapped to
  \<^verbatim>\<open>{...item, status: "queued", blobUrl: undefined, width: undefined,
  height: undefined, error: undefined}\<close>, its object URL released first.
\<close>

definition resetItem :: "item \<Rightarrow> item" where
  "resetItem it =
     it\<lparr>status := Queued, blobUrl := None, width := None, height := None, error := None\<rparr>"

definition resetItems :: "state \<Rightarrow> state" where
  "resetItems s =
     s\<lparr>items := map resetItem (items s), revoked := revoked s @ urlsOf (items s),
       effectDue := True\<rparr>"

text \<open>
  The palette button: \<^verbatim>\<open>setPaletteMode((prev) => (prev === "dmg" ? "gray" : "dmg"))\<close>,
  followed by the reset effect. The update of the reset effect is queued behind the
  updates of the watcher effect, and the render that applies it applies them first.
\<close>

definition togglePalette :: "state \<Rightarrow> state" where
  "togglePalette s =
     resetItems
       (applyQueued (s\<lparr>paletteMode := (if paletteMode s = Dmg then Gray else Dmg)\<rparr>))"

subsection \<open>Selection and clearing\<close>

text \<open>
  The handlers of the buttons and check boxes. They run in a click, and the render of a
  click applies its own update at once, leaving the queued updates of the watcher effect
  for a later render.
\<close>

definition toggleSelected :: "nat \<Rightarrow> state \<Rightarrow> state" where
  "toggleSelected n s =
     s\<lparr>items := map (\<lambda>it. if item_id it = n then it\<lparr>selected := \<not> selected it\<rparr> else it)
                   (items s),
       effectDue := True\<rparr>"

definition selectAll :: "state \<Rightarrow> state" where
  "selectAll s =
     s\<lparr>items := map (\<lambda>it. if status it = Done then it\<lparr>selected := True\<rparr> else it) (items s),
       effectDue := True\<rparr>"

definition clearSelection :: "state \<Rightarrow> state" where
  "clearSelection s =
     s\<lparr>items := map (\<lambda>it. it\<lparr>selected := False\<rparr>) (items s), effectDue := True\<rparr>"

definition clearAll :: "state \<Rightarrow> state" where
  "clearAll s =
     s\<lparr>items := [], revoked := revoked s @ urlsOf (items s), effectDue := True\<rparr>"

subsection \<open>The states the application can reach\<close>

text \<open>
  Every handler, every run of the watcher effect and every render of queued updates is
  one step. Dropping files acts on the state through \<open>enqueueFiles\<close> and \<open>setToast\<close>
  only, so these two are the steps of ingestion, whatever runs between the awaits of
  \<open>handleFiles\<close>. A click between a run of the watcher effect and the render of its
  updates commits a render in which \<open>busy\<close> is still false: the effect runs again (the
  step \<open>r_pick\<close> after \<open>r_clearSelection\<close>, say, with \<open>scheduled\<close> not empty).
\<close>

inductive reachable :: "state \<Rightarrow> bool" where
  r_initial: "reachable initial"
| r_enqueue: "reachable s \<Longrightarrow> reachable (enqueueFiles files s)"
| r_toast: "reachable s \<Longrightarrow> reachable (setToast text s)"
| r_pick: "reachable s \<Longrightarrow> reachable (watcher s)"
| r_render: "reachable s \<Longrightarrow> reachable (applyQueued s)"
| r_complete: "reachable s \<Longrightarrow> reachable (conversionDone n u w h s)"
| r_fail: "reachable s \<Longrightarrow> reachable (conversionFailed n msg s)"
| r_toggle: "reachable s \<Longrightarrow> reachable (togglePalette s)"
| r_clear: "reachable s \<Longrightarrow> reachable (clearAll s)"
| r_toggleSelected: "reachable s \<Longrightarrow> reachable (toggleSelected n s)"
| r_selectAll: "reachable s \<Longrightarrow> reachable (selectAll s)"
| r_clearSelection: "reachable s \<Longrightarrow> reachable (clearSelection s)"

definition processingCount :: "state \<Rightarrow> nat" where
  "processingCount s = length (filter (\<lambda>it. status it = Processing) (items s))"

subsection \<open>Export\<close>

definition suffix :: "paletteMode \<Rightarrow> string" where
  "suffix m = (if m = Gray then ''-gs'' else ''-dmg'')"

text \<open>The file name \<^verbatim>\<open>`${baseName(item.name)}${suffix}.png`\<close>, used by the card button and
  by both archive downloads.\<close>

definition exportName :: "paletteMode \<Rightarrow> item \<Rightarrow> string" where
  "exportName m it = baseName (name it) @ suffix m @ ''.png''"

text \<open>The download button of a card; it is rendered for a done item with a result only.\<close>

definition cardDownload :: "state \<Rightarrow> item \<Rightarrow> (nat \<times> string) option" where
  "cardDownload s it =
     (case blobUrl it of
        Some u \<Rightarrow> if status it = Done then Some (u, exportName (paletteMode s) it) else None
      | None \<Rightarrow> None)"

text \<open>
  The loop that fills the archive: \<^verbatim>\<open>zip.file(name, blob)\<close> for every item with a
  result, a later entry replacing an earlier one of the same name. The blob fetched from
  an object URL is represented by that URL.
\<close>

fun zipItems :: "paletteMode \<Rightarrow> item list \<Rightarrow> (string \<times> nat) list \<Rightarrow> (string \<times> nat) list" where
  "zipItems m [] z = z"
| "zipItems m (it # its) z =
     (case blobUrl it of
        None \<Rightarrow> zipItems m its z
      | Some u \<Rightarrow> zipItems m its (AList.update (exportName m it) u z))"

text \<open>
  \<^verbatim>\<open>downloadSelectedZip\<close> and \<^verbatim>\<open>downloadAllZip\<close> are asynchronous functions. The
  first component of the result is how the promise settles and the state it leaves;
  the second is the download: \<open>None\<close> when nothing is downloaded, otherwise the name
  and the content of the archive. The early return \<^verbatim>\<open>if (!selectedItems.length) {
  return; }\<close> resolves the promise; neither function throws or calls \<open>setToast\<close>.
\<close>

definition downloadSelectedZip ::
    "state \<Rightarrow> outcome \<times> (string \<times> (string \<times> nat) list) option" where
  "downloadSelectedZip s =
     (if selectedItems s = [] then (Resolved s, None)
      else (Resolved s,
            Some (if paletteMode s = Gray then ''img2dmg-selected-gs.zip''
                  else ''img2dmg-selected.zip'',
                  zipItems (paletteMode s) (selectedItems s) [])))"

definition downloadAllZip ::
    "state \<Rightarrow> outcome \<times> (string \<times> (string \<times> nat) list) option" where
  "downloadAllZip s =
     (if doneItems s = [] then (Resolved s, None)
      else (Resolved s,
            Some (if paletteMode s = Gray then ''img2dmg-all-gs.zip''
                  else ''img2dmg-all.zip'',
                  zipItems (paletteMode s) (doneItems s) [])))"

text \<open>
  The spec's words for a failed operation: the promise rejects, or a notice is raised
  (the state left behind has a message that the state before did not have).
\<close>

definition failsWithError :: "state \<Rightarrow> outcome \<Rightarrow> bool" where
  "failsWithError s out \<longleftrightarrow>
     (case out of
        Rejected t \<Rightarrow> True
      | Resolved t \<Rightarrow> message t \<noteq> None \<and> message t \<noteq> message s)"

subsection \<open>What a job keeps\<close>

text \<open>The fields of a job other than its status and its result fields.\<close>

definition sameJob :: "item \<Rightarrow> item \<Rightarrow> bool" where
  "sameJob a c \<longleftrightarrow>
     item_id c = item_id a \<and> name c = name a \<and> ext c = ext a
     \<and> item_file c = item_file a \<and> selected c = selected a"

subsection \<open>Files that a drop can convert\<close>



subsection \<open>What the pixel loop does to one pixel\<close>

text \<open>
  The relation between the buffer before and after the loop at the pixel \<open>k\<close>, the four
  bytes from index \<open>4 * k\<close>: a pixel with alpha \<open>0\<close> is as it was; any other pixel has
  the colour of the palette entry at its level, and the alpha it had.
\<close>

definition pixelConverted :: "palette \<Rightarrow> pixels \<Rightarrow> pixels \<Rightarrow> nat \<Rightarrow> bool" where
  "pixelConverted pal data out k \<longleftrightarrow>
     (if data ! (4 * k + 3) = 0
      then out ! (4 * k) = data ! (4 * k) \<and> out ! (4 * k + 1) = data ! (4 * k + 1)
           \<and> out ! (4 * k + 2) = data ! (4 * k + 2) \<and> out ! (4 * k + 3) = data ! (4 * k + 3)
      else (let sh = pal ! level (unat (data ! (4 * k))) (unat (data ! (4 * k + 1)))
                             (unat (data ! (4 * k + 2)))
            in out ! (4 * k) = clamp8 (r sh) \<and> out ! (4 * k + 1) = clamp8 (g sh)
               \<and> out ! (4 * k + 2) = clamp8 (b sh) \<and> out ! (4 * k + 3) = data ! (4 * k + 3)))"

section \<open>Theorems\<close>

subsection \<open>File names\<close>

lemma split_dot_nonempty: "split_dot s \<noteq> []"
  by (induction s) (simp_all split: list.splits)

lemma split_dot_no_dot: "CHR ''.'' \<notin> set s \<Longrightarrow> split_dot s = [s]"
  by (induction s) auto

lemma split_dot_has_dot: "CHR ''.'' \<in> set s \<Longrightarrow> butlast (split_dot s) \<noteq> []"
proof (induction s)
  case Nil
  then show ?case by simp
next
  case (Cons c cs)
  obtain p ps where sp: "split_dot cs = p # ps"
    using split_dot_nonempty [of cs] by (cases "split_dot cs") simp_all
  show ?case
  proof (cases "c = CHR ''.''")
    case True
    then show ?thesis by (simp add: sp)
  next
    case False
    then have "butlast (split_dot cs) \<noteq> []" using Cons by simp
    then have "ps \<noteq> []" by (simp add: sp split: if_splits)
    then show ?thesis using False by (simp add: sp)
  qed
qed

lemma after_last_dot_Cons:
  "after_last_dot (c # cs) =
     (if CHR ''.'' \<in> set cs then after_last_dot cs
      else if c = CHR ''.'' then cs else c # cs)"
proof (cases "CHR ''.'' \<in> set cs")
  case True
  have "takeWhile (\<lambda>c. c \<noteq> CHR ''.'') (rev cs @ [c])
        = takeWhile (\<lambda>c. c \<noteq> CHR ''.'') (rev cs)"
    by (rule takeWhile_append1 [of "CHR ''.''"]) (use True in simp_all)
  then show ?thesis using True by (simp add: after_last_dot_def)
next
  case False
  have "takeWhile (\<lambda>c. c \<noteq> CHR ''.'') (rev cs @ [c])
        = rev cs @ takeWhile (\<lambda>c. c \<noteq> CHR ''.'') [c]"
    by (rule takeWhile_append2) (use False in auto)
  then show ?thesis using False by (simp add: after_last_dot_def)
qed

lemma last_split_dot: "last (split_dot s) = after_last_dot s"
proof (induction s)
  case Nil
  then show ?case by (simp add: after_last_dot_def)
next
  case (Cons c cs)
  show ?case
  proof (cases "CHR ''.'' \<in> set cs")
    case True
    obtain p ps where sp: "split_dot cs = p # ps"
      using split_dot_nonempty [of cs] by (cases "split_dot cs") simp_all
    have "ps \<noteq> []"
      using split_dot_has_dot [OF True] by (simp add: sp split: if_splits)
    then show ?thesis using Cons sp True by (simp add: after_last_dot_Cons)
  next
    case False
    then show ?thesis
      by (simp add: split_dot_no_dot after_last_dot_Cons)
  qed
qed

lemma lowerChar_dot: "lowerChar c = CHR ''.'' \<longleftrightarrow> c = CHR ''.''"
proof -
  have dot: "(of_char (CHR ''.'') :: nat) = 46" by simp
  have "((of_char (lowerChar c) :: nat) = 46) = ((of_char c :: nat) = 46)"
    unfolding lowerChar_def Let_def by auto
  then show ?thesis
    by (metis dot of_char_eq_iff)
qed

lemma after_last_dot_lower:
  "after_last_dot (toLowerCase s) = toLowerCase (after_last_dot s)"
proof -
  have aux: "takeWhile (\<lambda>c. c \<noteq> CHR ''.'') (map lowerChar xs)
             = map lowerChar (takeWhile (\<lambda>c. c \<noteq> CHR ''.'') xs)" for xs
    by (induction xs) (simp_all add: lowerChar_dot)
  show ?thesis
    unfolding after_last_dot_def toLowerCase_def
    by (simp only: rev_map aux)
qed

lemma extFromName_eq: "extFromName nm = toLowerCase (after_last_dot nm)"
  by (simp add: extFromName_def pop_def split_dot_nonempty last_split_dot after_last_dot_lower)

lemma before_last_dot_Cons:
  "CHR ''.'' \<in> set cs \<Longrightarrow> before_last_dot (c # cs) = c # before_last_dot cs"
proof -
  assume d: "CHR ''.'' \<in> set cs"
  have 1: "dropWhile (\<lambda>c. c \<noteq> CHR ''.'') (rev cs @ [c])
           = dropWhile (\<lambda>c. c \<noteq> CHR ''.'') (rev cs) @ [c]"
    by (rule dropWhile_append1 [of "CHR ''.''"]) (use d in simp_all)
  show ?thesis
    using d by (simp add: before_last_dot_def 1)
qed

lemma before_last_dot_dot:
  "CHR ''.'' \<notin> set cs \<Longrightarrow> before_last_dot (CHR ''.'' # cs) = []"
proof -
  assume "CHR ''.'' \<notin> set cs"
  then have "dropWhile (\<lambda>c. c \<noteq> CHR ''.'') (rev cs) = []"
    by auto
  then show ?thesis
    by (simp add: before_last_dot_def dropWhile_append)
qed

lemma join_dot_Cons_Cons: "join_dot ((c # p) # ps) = c # join_dot (p # ps)"
  by (cases ps) simp_all

lemma join_butlast_split_dot:
  "join_dot (butlast (split_dot s)) = (if CHR ''.'' \<in> set s then before_last_dot s else [])"
proof (induction s)
  case Nil
  then show ?case by simp
next
  case (Cons c cs)
  obtain p ps where sp: "split_dot cs = p # ps"
    using split_dot_nonempty [of cs] by (cases "split_dot cs") simp_all
  show ?case
  proof (cases "CHR ''.'' \<in> set cs")
    case True
    then have ne: "butlast (split_dot cs) \<noteq> []"
      by (rule split_dot_has_dot)
    then have ps: "ps \<noteq> []" by (simp add: sp split: if_splits)
    from ne obtain q qs where bl: "butlast (split_dot cs) = q # qs"
      by (cases "butlast (split_dot cs)") simp_all
    have ih: "join_dot (butlast (split_dot cs)) = before_last_dot cs"
      using Cons True by simp
    have bc: "before_last_dot (c # cs) = c # before_last_dot cs"
      by (rule before_last_dot_Cons [OF True])
    show ?thesis
    proof (cases "c = CHR ''.''")
      case dot: True
      have "butlast (split_dot (c # cs)) = [] # q # qs"
        using dot bl by (simp add: split_dot_nonempty)
      then have "join_dot (butlast (split_dot (c # cs))) = CHR ''.'' # join_dot (q # qs)"
        by simp
      also have "join_dot (q # qs) = before_last_dot cs"
        using ih by (simp only: bl)
      finally show ?thesis
        using True bc dot by simp
    next
      case False
      have "butlast (split_dot (c # cs)) = (c # p) # butlast ps"
        using False ps by (simp add: sp)
      then have "join_dot (butlast (split_dot (c # cs))) = c # join_dot (p # butlast ps)"
        by (simp only: join_dot_Cons_Cons)
      also have "p # butlast ps = butlast (split_dot cs)"
        using ps by (simp add: sp)
      finally show ?thesis
        using True bc ih by simp
    qed
  next
    case False
    then have sp1: "split_dot cs = [cs]" by (rule split_dot_no_dot)
    show ?thesis
    proof (cases "c = CHR ''.''")
      case True
      then show ?thesis
        using False before_last_dot_dot [OF False] by (simp add: sp1)
    next
      case c: False
      then show ?thesis
        using False by (simp add: sp1)
    qed
  qed
qed

lemma baseName_eq:
  "baseName nm =
     (if CHR ''.'' \<in> set nm \<and> before_last_dot nm \<noteq> [] then before_last_dot nm else nm)"
  by (simp add: baseName_def pop_def split_dot_nonempty join_butlast_split_dot Let_def)

text \<open>
  Claim C5. The extension used for validation is the lowercased substring after the last
  dot of the name, and the empty string when the name has no dot. The code does the
  first; for a name without a dot \<^verbatim>\<open>split\<close> returns the one-element array holding
  the whole name, \<^verbatim>\<open>pop\<close> never returns \<^verbatim>\<open>undefined\<close>, and the fallback \<^verbatim>\<open>?? ""\<close>
  is never taken: the name \<^verbatim>\<open>README\<close> gets the extension \<^verbatim>\<open>readme\<close>, and a file
  named \<^verbatim>\<open>png\<close> counts as a supported image.
\<close>

theorem extFromName_without_dot:
  "extFromName ''README'' = ''readme'' \<and> spec_extension ''README'' = []
   \<and> isSupportedExt (extFromName ''png'')"
  by code_simp

lemma zipItems_keys:
  "fst ` set (zipItems m its z) \<subseteq> fst ` set z \<union> exportName m ` set its"
proof (induction its arbitrary: z)
  case Nil
  then show ?case by simp
next
  case (Cons a its)
  show ?case
  proof (cases "blobUrl a")
    case None
    then show ?thesis using Cons [of z] by auto
  next
    case (Some u)
    have "fst ` set (AList.update (exportName m a) u z) = {exportName m a} \<union> fst ` set z"
      by (rule dom_update)
    then show ?thesis
      using Cons [of "AList.update (exportName m a) u z"] Some by auto
  qed
qed

lemma zipItems_keys_empty:
  "fst ` set (zipItems m its []) \<subseteq> exportName m ` set its"
  using zipItems_keys [of m its "[]"] by simp

text \<open>
  Claim C7, as amended. The export file name of a job is its source name without the
  final extension (the last dot and what follows it), or the whole source name when that
  prefix is empty (a name such as \<^verbatim>\<open>.png\<close>, whose only dot is its first character),
  followed by \<^verbatim>\<open>-gs\<close> in gray mode and \<^verbatim>\<open>-dmg\<close> in dmg mode, followed by
  \<^verbatim>\<open>.png\<close>. The mode is the palette mode of the state at the moment of the export: the
  card button and both archive downloads name their files with it.
\<close>

theorem exportName_base_suffix:
  "exportName m it =
     (if spec_without_extension (name it) = [] then name it
      else spec_without_extension (name it))
     @ (if m = Gray then ''-gs'' else ''-dmg'') @ ''.png''
   \<and> (cardDownload s it = Some (u, fn) \<longrightarrow> fn = exportName (paletteMode s) it)
   \<and> (snd (downloadSelectedZip s) = Some (zn, z) \<longrightarrow>
        fst ` set z \<subseteq> exportName (paletteMode s) ` set (selectedItems s))
   \<and> (snd (downloadAllZip s) = Some (zn, z) \<longrightarrow>
        fst ` set z \<subseteq> exportName (paletteMode s) ` set (doneItems s))"
proof -
  have "exportName m it =
     (if spec_without_extension (name it) = [] then name it
      else spec_without_extension (name it))
     @ (if m = Gray then ''-gs'' else ''-dmg'') @ ''.png''"
    by (simp add: exportName_def baseName_eq spec_without_extension_def suffix_def)
  moreover have "cardDownload s it = Some (u, fn) \<longrightarrow> fn = exportName (paletteMode s) it"
    by (auto simp: cardDownload_def split: option.splits if_splits)
  moreover have "snd (downloadSelectedZip s) = Some (zn, z) \<longrightarrow>
        fst ` set z \<subseteq> exportName (paletteMode s) ` set (selectedItems s)"
  proof
    assume "snd (downloadSelectedZip s) = Some (zn, z)"
    then have z: "z = zipItems (paletteMode s) (selectedItems s) []"
      by (simp add: downloadSelectedZip_def split: if_splits)
    show "fst ` set z \<subseteq> exportName (paletteMode s) ` set (selectedItems s)"
      unfolding z by (rule zipItems_keys_empty)
  qed
  moreover have "snd (downloadAllZip s) = Some (zn, z) \<longrightarrow>
        fst ` set z \<subseteq> exportName (paletteMode s) ` set (doneItems s)"
  proof
    assume "snd (downloadAllZip s) = Some (zn, z)"
    then have z: "z = zipItems (paletteMode s) (doneItems s) []"
      by (simp add: downloadAllZip_def split: if_splits)
    show "fst ` set z \<subseteq> exportName (paletteMode s) ` set (doneItems s)"
      unfolding z by (rule zipItems_keys_empty)
  qed
  ultimately show ?thesis by blast
qed

text \<open>The example of the claim, \<^verbatim>\<open>photo.JPG\<close>, under both modes, and an archive download
  of a converted job.\<close>

theorem exportName_photo_witness:
  "exportName Gray
     ((newItem 0 \<lparr>fname = ''photo.JPG'', ftype = ''image/jpeg'', fbytes = []\<rparr>)
        \<lparr>status := Done, blobUrl := Some 5\<rparr>) = ''photo-gs.png''
   \<and> exportName Dmg
     ((newItem 0 \<lparr>fname = ''photo.JPG'', ftype = ''image/jpeg'', fbytes = []\<rparr>)
        \<lparr>status := Done, blobUrl := Some 5\<rparr>) = ''photo-dmg.png''
   \<and> snd (downloadSelectedZip
        (togglePalette (toggleSelected 0 (conversionDone 0 7 2 2 (watcher
           (enqueueFiles [\<lparr>fname = ''photo.JPG'', ftype = ''image/jpeg'', fbytes = []\<rparr>]
              initial))))))
       = None
   \<and> snd (downloadAllZip
        (toggleSelected 0 (conversionDone 0 7 2 2 (watcher
           (enqueueFiles [\<lparr>fname = ''photo.JPG'', ftype = ''image/jpeg'', fbytes = []\<rparr>]
              initial)))))
       = Some (''img2dmg-all.zip'', [(''photo-dmg.png'', 7)])
   \<and> fst ` set [(''photo-dmg.png'', 7 :: nat)]
       \<subseteq> exportName Dmg ` set (doneItems
        (toggleSelected 0 (conversionDone 0 7 2 2 (watcher
           (enqueueFiles [\<lparr>fname = ''photo.JPG'', ftype = ''image/jpeg'', fbytes = []\<rparr>]
              initial)))))"
proof -
  let ?f = "\<lparr>fname = ''photo.JPG'', ftype = ''image/jpeg'', fbytes = []\<rparr>"
  let ?it = "(newItem 0 ?f)\<lparr>status := Done, blobUrl := Some 5\<rparr>"
  let ?t = "toggleSelected 0 (conversionDone 0 7 2 2 (watcher (enqueueFiles [?f] initial)))"
  have 1: "spec_without_extension ''photo.JPG'' = ''photo''" by code_simp
  have 2: "name ?it = ''photo.JPG''"
    by (simp add: newItem_def)
  have 3: "snd (downloadSelectedZip (togglePalette ?t)) = None" by code_simp
  have 4: "snd (downloadAllZip ?t) = Some (''img2dmg-all.zip'', [(''photo-dmg.png'', 7)])"
    by code_simp
  have 5: "paletteMode ?t = Dmg" by code_simp
  have 6: "exportName Gray ?it = ''photo-gs.png''"
    using exportName_base_suffix [of Gray ?it] by (simp add: 1 2)
  have 7: "exportName Dmg ?it = ''photo-dmg.png''"
    using exportName_base_suffix [of Dmg ?it] by (simp add: 1 2)
  have 8: "fst ` set [(''photo-dmg.png'', 7 :: nat)] \<subseteq> exportName Dmg ` set (doneItems ?t)"
    using exportName_base_suffix [of Dmg ?it ?t 7 "''x''" "''img2dmg-all.zip''"
        "[(''photo-dmg.png'', 7)]"] 4 5
    by simp
  show ?thesis
    using 3 4 6 7 8 by simp
qed

text \<open>
  Claim C7 as stated fails for a done job named \<^verbatim>\<open>.png\<close>: the name without its final
  extension is empty, and the code falls back to the whole name.
\<close>

theorem exportName_hidden_counterexample:
  "exportName Gray
     ((newItem 0 \<lparr>fname = ''.png'', ftype = ''image/png'', fbytes = []\<rparr>)
        \<lparr>status := Done, blobUrl := Some 5\<rparr>)
   \<noteq> spec_without_extension ''.png'' @ ''-gs'' @ ''.png''
   \<and> exportName Gray
     ((newItem 0 \<lparr>fname = ''.png'', ftype = ''image/png'', fbytes = []\<rparr>)
        \<lparr>status := Done, blobUrl := Some 5\<rparr>) = ''.png-gs.png''"
  by code_simp

subsection \<open>Export of nothing\<close>

text \<open>
  Claim C8, as amended. A batch export invoked on an empty job set returns at once:
  \<open>downloadSelectedZip\<close> with no selected done job and \<open>downloadAllZip\<close> with no done
  job build and download no archive. They do so without an error: the promise resolves,
  no notice is raised and the state is what it was. On a non-empty job set an archive
  is downloaded.
\<close>

theorem export_empty_returns:
  "(selectedItems s = [] \<longrightarrow> downloadSelectedZip s = (Resolved s, None))
   \<and> (doneItems s = [] \<longrightarrow> downloadAllZip s = (Resolved s, None))
   \<and> (selectedItems s \<noteq> [] \<longrightarrow> snd (downloadSelectedZip s) \<noteq> None)
   \<and> (doneItems s \<noteq> [] \<longrightarrow> snd (downloadAllZip s) \<noteq> None)
   \<and> \<not> failsWithError s (fst (downloadSelectedZip s))
   \<and> \<not> failsWithError s (fst (downloadAllZip s))
   \<and> stateOf (fst (downloadSelectedZip s)) = s
   \<and> stateOf (fst (downloadAllZip s)) = s"
  by (simp add: downloadSelectedZip_def downloadAllZip_def failsWithError_def stateOf_def)

theorem export_empty_returns_witness:
  "selectedItems (enqueueFiles [\<lparr>fname = ''a.png'', ftype = ''image/png'', fbytes = []\<rparr>] initial) = []
   \<and> doneItems (enqueueFiles [\<lparr>fname = ''a.png'', ftype = ''image/png'', fbytes = []\<rparr>] initial) = []
   \<and> downloadSelectedZip (enqueueFiles [\<lparr>fname = ''a.png'', ftype = ''image/png'', fbytes = []\<rparr>] initial)
       = (Resolved (enqueueFiles [\<lparr>fname = ''a.png'', ftype = ''image/png'', fbytes = []\<rparr>] initial), None)
   \<and> downloadAllZip (enqueueFiles [\<lparr>fname = ''a.png'', ftype = ''image/png'', fbytes = []\<rparr>] initial)
       = (Resolved (enqueueFiles [\<lparr>fname = ''a.png'', ftype = ''image/png'', fbytes = []\<rparr>] initial), None)
   \<and> doneItems
        (conversionDone 0 7 2 2
           (watcher (enqueueFiles [\<lparr>fname = ''a.png'', ftype = ''image/png'', fbytes = []\<rparr>] initial)))
       \<noteq> []
   \<and> snd (downloadAllZip
        (conversionDone 0 7 2 2
           (watcher (enqueueFiles [\<lparr>fname = ''a.png'', ftype = ''image/png'', fbytes = []\<rparr>] initial))))
       \<noteq> None"
proof -
  let ?s = "enqueueFiles [\<lparr>fname = ''a.png'', ftype = ''image/png'', fbytes = []\<rparr>] initial"
  let ?t = "conversionDone 0 7 2 2 (watcher ?s)"
  have d: "doneItems ?s = []" by code_simp
  have e: "selectedItems ?s = []" by code_simp
  have f: "doneItems ?t \<noteq> []" by code_simp
  show ?thesis
    using export_empty_returns [of ?s] export_empty_returns [of ?t] d e f by blast
qed

text \<open>
  Claim C8 as stated fails: on the initial state, where both job sets are empty, neither
  export fails with an error; the promise resolves and no notice is raised.
\<close>

theorem export_no_error_counterexample:
  "selectedItems initial = [] \<and> doneItems initial = []
   \<and> \<not> failsWithError initial (fst (downloadSelectedZip initial))
   \<and> \<not> failsWithError initial (fst (downloadAllZip initial))
   \<and> fst (downloadSelectedZip initial) = Resolved initial
   \<and> fst (downloadAllZip initial) = Resolved initial
   \<and> message initial = None"
  by (simp add: downloadSelectedZip_def downloadAllZip_def failsWithError_def selectedItems_def
        doneItems_def initial_def)

subsection \<open>The palette-mode reset\<close>

lemma urlsOf_mem: "it \<in> set its \<Longrightarrow> blobUrl it = Some u \<Longrightarrow> u \<in> set (urlsOf its)"
  by (induction its) (auto simp: urlsOf_def List.map_filter_simps split: option.splits)

lemma urlsOf_markProcessing: "urlsOf (markProcessing n its) = urlsOf its"
  by (induction its)
     (auto simp: urlsOf_def markProcessing_def List.map_filter_simps split: option.splits)

lemma urlsOf_fold_mark: "urlsOf (fold markProcessing ns its) = urlsOf its"
  by (induction ns arbitrary: its) (simp_all add: urlsOf_markProcessing)

lemma length_fold_mark: "length (fold markProcessing ns its) = length its"
  by (induction ns arbitrary: its) (simp_all add: markProcessing_def)

lemma applyQueued_frame:
  "length (items (applyQueued s)) = length (items s)
   \<and> urlsOf (items (applyQueued s)) = urlsOf (items s)
   \<and> revoked (applyQueued s) = revoked s
   \<and> paletteMode (applyQueued s) = paletteMode s"
  by (simp add: applyQueued_def length_fold_mark urlsOf_fold_mark)

text \<open>
  Claim C6. Toggling the palette mode sets the status of every job to queued and clears
  its result fields (object URL, width, height, error message), whatever its status was;
  every object URL a job held is released by that step, and the mode changes.
\<close>

theorem togglePalette_resets:
  "(\<forall>it \<in> set (items (togglePalette s)).
      status it = Queued \<and> blobUrl it = None \<and> width it = None \<and> height it = None
      \<and> error it = None)
   \<and> length (items (togglePalette s)) = length (items s)
   \<and> (\<forall>it \<in> set (items s). \<forall>u. blobUrl it = Some u \<longrightarrow> u \<in> set (revoked (togglePalette s)))
   \<and> set (revoked s) \<subseteq> set (revoked (togglePalette s))
   \<and> paletteMode (togglePalette s) \<noteq> paletteMode s"
proof -
  define s' where "s' = s\<lparr>paletteMode := (if paletteMode s = Dmg then Gray else Dmg)\<rparr>"
  have t: "togglePalette s = resetItems (applyQueued s')"
    by (simp add: togglePalette_def s'_def)
  have fr: "length (items (applyQueued s')) = length (items s)"
    "urlsOf (items (applyQueued s')) = urlsOf (items s)"
    "revoked (applyQueued s') = revoked s"
    "paletteMode (applyQueued s') \<noteq> paletteMode s"
    using applyQueued_frame [of s'] by (simp_all add: s'_def)
  have 1: "\<forall>it \<in> set (items (togglePalette s)).
      status it = Queued \<and> blobUrl it = None \<and> width it = None \<and> height it = None
      \<and> error it = None"
    by (auto simp: t resetItems_def resetItem_def)
  have 2: "length (items (togglePalette s)) = length (items s)"
    by (simp add: t resetItems_def fr)
  have rv: "revoked (togglePalette s) = revoked s @ urlsOf (items s)"
    by (simp add: t resetItems_def fr)
  have 3: "\<forall>it \<in> set (items s). \<forall>u. blobUrl it = Some u \<longrightarrow> u \<in> set (revoked (togglePalette s))"
    by (auto simp: rv urlsOf_mem)
  have 4: "set (revoked s) \<subseteq> set (revoked (togglePalette s))"
    by (simp add: rv)
  have 5: "paletteMode (togglePalette s) \<noteq> paletteMode s"
    using fr(4) by (simp add: t resetItems_def)
  show ?thesis using 1 2 3 4 5 by blast
qed

theorem togglePalette_resets_witness:
  "status (hd (items (togglePalette (conversionDone 0 7 2 2 (watcher
       (enqueueFiles [\<lparr>fname = ''a.png'', ftype = ''image/png'', fbytes = []\<rparr>,
                      \<lparr>fname = ''b.png'', ftype = ''image/png'', fbytes = []\<rparr>] initial)))))) = Queued
   \<and> blobUrl (hd (items (togglePalette (conversionDone 0 7 2 2 (watcher
       (enqueueFiles [\<lparr>fname = ''a.png'', ftype = ''image/png'', fbytes = []\<rparr>,
                      \<lparr>fname = ''b.png'', ftype = ''image/png'', fbytes = []\<rparr>] initial)))))) = None
   \<and> 7 \<in> set (revoked (togglePalette (conversionDone 0 7 2 2 (watcher
       (enqueueFiles [\<lparr>fname = ''a.png'', ftype = ''image/png'', fbytes = []\<rparr>,
                      \<lparr>fname = ''b.png'', ftype = ''image/png'', fbytes = []\<rparr>] initial)))))
   \<and> status (hd (items (conversionDone 0 7 2 2 (watcher
       (enqueueFiles [\<lparr>fname = ''a.png'', ftype = ''image/png'', fbytes = []\<rparr>,
                      \<lparr>fname = ''b.png'', ftype = ''image/png'', fbytes = []\<rparr>] initial))))) = Done
   \<and> blobUrl (hd (items (conversionDone 0 7 2 2 (watcher
       (enqueueFiles [\<lparr>fname = ''a.png'', ftype = ''image/png'', fbytes = []\<rparr>,
                      \<lparr>fname = ''b.png'', ftype = ''image/png'', fbytes = []\<rparr>] initial))))) = Some 7"
proof -
  let ?t = "conversionDone 0 7 2 2 (watcher
       (enqueueFiles [\<lparr>fname = ''a.png'', ftype = ''image/png'', fbytes = []\<rparr>,
                      \<lparr>fname = ''b.png'', ftype = ''image/png'', fbytes = []\<rparr>] initial))"
  have 1: "hd (items ?t) \<in> set (items ?t)" by code_simp
  have 2: "blobUrl (hd (items ?t)) = Some 7" by code_simp
  have 3: "status (hd (items ?t)) = Done" by code_simp
  have 4: "hd (items (togglePalette ?t)) \<in> set (items (togglePalette ?t))" by code_simp
  show ?thesis
    using togglePalette_resets [of ?t] 1 2 3 4 by blast
qed

lemma list_all2_map_same: "(\<And>x. x \<in> set xs \<Longrightarrow> P x (f x)) \<Longrightarrow> list_all2 P xs (map f xs)"
  by (induction xs) simp_all

lemma sameJob_trans: "sameJob a c \<Longrightarrow> sameJob c d \<Longrightarrow> sameJob a d"
  by (simp add: sameJob_def)

lemma sameJob_list_trans:
  "list_all2 sameJob xs ys \<Longrightarrow> list_all2 sameJob ys zs \<Longrightarrow> list_all2 sameJob xs zs"
  by (rule list_all2_trans [of sameJob sameJob sameJob]) (auto intro: sameJob_trans)

lemma sameJob_markProcessing: "list_all2 sameJob its (markProcessing n its)"
  unfolding markProcessing_def
  by (rule list_all2_map_same) (simp add: sameJob_def)

lemma sameJob_fold_mark: "list_all2 sameJob its (fold markProcessing ns its)"
proof (induction ns arbitrary: its)
  case Nil
  then show ?case by (simp add: list_all2_refl sameJob_def)
next
  case (Cons n ns)
  have "list_all2 sameJob (markProcessing n its) (fold markProcessing ns (markProcessing n its))"
    by (rule Cons.IH)
  then show ?case
    using sameJob_markProcessing [of its n] by (simp add: sameJob_list_trans)
qed

lemma sameJob_applyQueued: "list_all2 sameJob (items s) (items (applyQueued s))"
  by (simp add: applyQueued_def sameJob_fold_mark list_all2_refl sameJob_def)

text \<open>
  Claim C9. The palette-mode reset leaves the identifier, source name, extension, source
  file and selected flag of every job as they were, position by position; so do the
  steps of the reprocessing that follows (a run of the watcher effect, the render that
  marks the picked job, the success and the failure of a conversion), so that a job
  selected while done is still selected after it.
\<close>

theorem togglePalette_keeps_jobs:
  "list_all2 sameJob (items s) (items (togglePalette s))
   \<and> list_all2 sameJob (items s) (items (watcher s))
   \<and> list_all2 sameJob (items s) (items (applyQueued s))
   \<and> list_all2 sameJob (items s) (items (conversionDone n u w h s))
   \<and> list_all2 sameJob (items s) (items (conversionFailed n msg s))"
proof -
  define s' where "s' = s\<lparr>paletteMode := (if paletteMode s = Dmg then Gray else Dmg)\<rparr>"
  have q: "list_all2 sameJob (items s) (items (applyQueued s))"
    by (rule sameJob_applyQueued)
  have "list_all2 sameJob (items s') (items (applyQueued s'))"
    by (rule sameJob_applyQueued)
  then have q': "list_all2 sameJob (items s) (items (applyQueued s'))"
    by (simp add: s'_def)
  have "list_all2 sameJob (items (applyQueued s')) (map resetItem (items (applyQueued s')))"
    by (rule list_all2_map_same) (simp add: sameJob_def resetItem_def)
  then have 1: "list_all2 sameJob (items s) (items (togglePalette s))"
    using q' by (simp add: togglePalette_def resetItems_def sameJob_list_trans flip: s'_def)
  have 2: "list_all2 sameJob (items s) (items (watcher s))"
    unfolding watcher_def
    by (auto simp: sameJob_def list_all2_refl split: option.splits)
  have 3: "list_all2 sameJob (items s) (items (conversionDone n u w h s))"
  proof (cases "n \<in> set (pending s)")
    case True
    have "list_all2 sameJob (items (applyQueued s))
            (map (\<lambda>it. if item_id it \<noteq> n then it
                       else it\<lparr>status := Done, blobUrl := Some u, width := Some w,
                               height := Some h\<rparr>) (items (applyQueued s)))"
      by (rule list_all2_map_same) (simp add: sameJob_def)
    then show ?thesis
      using q True by (simp add: conversionDone_def Let_def sameJob_list_trans)
  next
    case False
    then show ?thesis by (simp add: conversionDone_def list_all2_refl sameJob_def)
  qed
  have 4: "list_all2 sameJob (items s) (items (conversionFailed n msg s))"
  proof (cases "n \<in> set (pending s)")
    case True
    have "list_all2 sameJob (items (applyQueued s))
            (map (\<lambda>it. if item_id it = n then it\<lparr>status := Error, error := Some msg\<rparr> else it)
               (items (applyQueued s)))"
      by (rule list_all2_map_same) (simp add: sameJob_def)
    then show ?thesis
      using q True by (simp add: conversionFailed_def Let_def sameJob_list_trans)
  next
    case False
    then show ?thesis by (simp add: conversionFailed_def list_all2_refl sameJob_def)
  qed
  show ?thesis using 1 2 q 3 4 by blast
qed

theorem togglePalette_keeps_jobs_witness:
  "list_all2 sameJob
     (items (toggleSelected 0 (conversionDone 0 7 2 2 (watcher
        (enqueueFiles [\<lparr>fname = ''a.png'', ftype = ''image/png'', fbytes = []\<rparr>] initial)))))
     (items (togglePalette (toggleSelected 0 (conversionDone 0 7 2 2 (watcher
        (enqueueFiles [\<lparr>fname = ''a.png'', ftype = ''image/png'', fbytes = []\<rparr>] initial))))))
   \<and> selected (hd (items (toggleSelected 0 (conversionDone 0 7 2 2 (watcher
        (enqueueFiles [\<lparr>fname = ''a.png'', ftype = ''image/png'', fbytes = []\<rparr>] initial))))))
   \<and> selected (hd (items (conversionDone 0 8 2 2 (watcher (togglePalette
        (toggleSelected 0 (conversionDone 0 7 2 2 (watcher
        (enqueueFiles [\<lparr>fname = ''a.png'', ftype = ''image/png'', fbytes = []\<rparr>]
           initial)))))))))"
proof -
  let ?t = "toggleSelected 0 (conversionDone 0 7 2 2 (watcher
        (enqueueFiles [\<lparr>fname = ''a.png'', ftype = ''image/png'', fbytes = []\<rparr>] initial)))"
  have 1: "selected (hd (items ?t))" by code_simp
  have 2: "selected (hd (items (conversionDone 0 8 2 2 (watcher (togglePalette ?t)))))"
    by code_simp
  show ?thesis
    using togglePalette_keeps_jobs [of ?t] 1 2 by blast
qed

subsection \<open>The queue\<close>

text \<open>
  Claim C3. In every reachable state at most one job has the status processing. The
  flag \<open>busy\<close> is there to ensure it, but the watcher effect tests the \<open>busy\<close> of its
  render and only queues \<^verbatim>\<open>setBusy(true)\<close>. Three images are dropped and the effect
  starts the first job; a click on the button for clearing the selection commits a
  render before the queued updates are applied, \<open>busy\<close> is still false in it, and the
  effect starts the same job a second time. The first of the two promises clears
  \<open>busy\<close> and the second job is started; the second promise clears \<open>busy\<close> while that
  job is converting, and the third job is started beside it. The state reached has two
  processing jobs.
\<close>

theorem stale_effect_two_processing:
  "reachable
     (applyQueued (watcher (conversionDone 0 8 2 2 (watcher (conversionDone 0 7 2 2
        (watcher (clearSelection (watcher
           (enqueueFiles [\<lparr>fname = ''a.png'', ftype = ''image/png'', fbytes = []\<rparr>,
                          \<lparr>fname = ''b.png'', ftype = ''image/png'', fbytes = []\<rparr>,
                          \<lparr>fname = ''c.png'', ftype = ''image/png'', fbytes = []\<rparr>]
              initial)))))))))
   \<and> busy (clearSelection (watcher
           (enqueueFiles [\<lparr>fname = ''a.png'', ftype = ''image/png'', fbytes = []\<rparr>,
                          \<lparr>fname = ''b.png'', ftype = ''image/png'', fbytes = []\<rparr>,
                          \<lparr>fname = ''c.png'', ftype = ''image/png'', fbytes = []\<rparr>]
              initial))) = False
   \<and> pending (watcher (clearSelection (watcher
           (enqueueFiles [\<lparr>fname = ''a.png'', ftype = ''image/png'', fbytes = []\<rparr>,
                          \<lparr>fname = ''b.png'', ftype = ''image/png'', fbytes = []\<rparr>,
                          \<lparr>fname = ''c.png'', ftype = ''image/png'', fbytes = []\<rparr>]
              initial)))) = [0, 0]
   \<and> map status (items
     (applyQueued (watcher (conversionDone 0 8 2 2 (watcher (conversionDone 0 7 2 2
        (watcher (clearSelection (watcher
           (enqueueFiles [\<lparr>fname = ''a.png'', ftype = ''image/png'', fbytes = []\<rparr>,
                          \<lparr>fname = ''b.png'', ftype = ''image/png'', fbytes = []\<rparr>,
                          \<lparr>fname = ''c.png'', ftype = ''image/png'', fbytes = []\<rparr>]
              initial))))))))))
     = [Done, Processing, Processing]
   \<and> processingCount
     (applyQueued (watcher (conversionDone 0 8 2 2 (watcher (conversionDone 0 7 2 2
        (watcher (clearSelection (watcher
           (enqueueFiles [\<lparr>fname = ''a.png'', ftype = ''image/png'', fbytes = []\<rparr>,
                          \<lparr>fname = ''b.png'', ftype = ''image/png'', fbytes = []\<rparr>,
                          \<lparr>fname = ''c.png'', ftype = ''image/png'', fbytes = []\<rparr>]
              initial))))))))) = 2"
proof -
  let ?s0 = "enqueueFiles [\<lparr>fname = ''a.png'', ftype = ''image/png'', fbytes = []\<rparr>,
                          \<lparr>fname = ''b.png'', ftype = ''image/png'', fbytes = []\<rparr>,
                          \<lparr>fname = ''c.png'', ftype = ''image/png'', fbytes = []\<rparr>] initial"
  let ?s3 = "watcher (clearSelection (watcher ?s0))"
  let ?T = "applyQueued (watcher (conversionDone 0 8 2 2 (watcher (conversionDone 0 7 2 2 ?s3))))"
  have r: "reachable ?T"
    by (intro reachable.intros)
  have b: "busy (clearSelection (watcher ?s0)) = False" by code_simp
  have p: "pending ?s3 = [0, 0]" by code_simp
  have st: "map status (items ?T) = [Done, Processing, Processing]" by code_simp
  have c: "processingCount ?T = 2" by code_simp
  show ?thesis using r b p st c by blast
qed

subsection \<open>Ingestion of archives and dropped files\<close>

















subsection \<open>Rounding to a double\<close>












subsection \<open>The pixel loop\<close>

lemma level_le_3: "level cr cg cb \<le> 3"
  by (simp add: level_def)

lemma convertLoop_end: "\<not> i < length data \<Longrightarrow> convertLoop pal i data = Inr data"
  by (subst convertLoop.simps) simp

lemma convertLoop_skip:
  "i + 3 < length data \<Longrightarrow> data ! (i + 3) = 0 \<Longrightarrow>
     convertLoop pal i data = convertLoop pal (i + 4) data"
  by (subst convertLoop.simps) (simp add: rd_def)

lemma convertLoop_recolour:
  "i + 3 < length data \<Longrightarrow> data ! (i + 3) \<noteq> 0 \<Longrightarrow> 4 \<le> length pal \<Longrightarrow>
     convertLoop pal i data =
       convertLoop pal (i + 4)
         (data[i := clamp8 (r (pal ! level (unat (data ! i)) (unat (data ! (i + 1)))
                                    (unat (data ! (i + 2))))),
               i + 1 := clamp8 (g (pal ! level (unat (data ! i)) (unat (data ! (i + 1)))
                                    (unat (data ! (i + 2))))),
               i + 2 := clamp8 (b (pal ! level (unat (data ! i)) (unat (data ! (i + 1)))
                                    (unat (data ! (i + 2)))))])"
proof -
  assume a: "i + 3 < length data" and nz: "data ! (i + 3) \<noteq> 0" and p: "4 \<le> length pal"
  have lv: "level (unat (data ! i)) (unat (data ! (i + 1))) (unat (data ! (i + 2))) < length pal"
    using level_le_3 [of "unat (data ! i)" "unat (data ! (i + 1))" "unat (data ! (i + 2))"] p
    by simp
  have nz': "unat (data ! (i + 3)) \<noteq> 0"
    using nz by (simp add: unat_eq_0)
  show ?thesis
    using a nz' lv
    by (subst convertLoop.simps) (simp add: rd_def Let_def)
qed


lemma pixelConverted_cong:
  "\<forall>j. 4 * k \<le> j \<and> j \<le> 4 * k + 3 \<longrightarrow> data' ! j = data ! j \<Longrightarrow>
     pixelConverted pal data' out k = pixelConverted pal data out k"
proof -
  assume a: "\<forall>j. 4 * k \<le> j \<and> j \<le> 4 * k + 3 \<longrightarrow> data' ! j = data ! j"
  have "data' ! (4 * k) = data ! (4 * k)" "data' ! (4 * k + 1) = data ! (4 * k + 1)"
    "data' ! (4 * k + 2) = data ! (4 * k + 2)" "data' ! (4 * k + 3) = data ! (4 * k + 3)"
    using a by simp_all
  then show ?thesis
    by (simp only: pixelConverted_def)
qed

lemma convertLoop_correct:
  "4 \<le> length pal \<Longrightarrow> length data mod 4 = 0 \<Longrightarrow> i mod 4 = 0 \<Longrightarrow>
     \<exists>out. convertLoop pal i data = Inr out \<and> length out = length data
           \<and> (\<forall>j < i. out ! j = data ! j)
           \<and> (\<forall>k. i \<le> 4 * k \<and> 4 * k < length data \<longrightarrow> pixelConverted pal data out k)"
proof (induction "length data - i" arbitrary: i data rule: less_induct)
  case less
  show ?case
  proof (cases "i < length data")
    case False
    then have "convertLoop pal i data = Inr data" by (rule convertLoop_end)
    then show ?thesis using False by auto
  next
    case True
    have i3: "i + 3 < length data"
      using True less.prems(2,3) by presburger
    have step: "(i + 4) mod 4 = 0" using less.prems(3) by presburger
    have next_k: "\<And>k. i \<le> 4 * k \<Longrightarrow> 4 * k \<noteq> i \<Longrightarrow> i + 4 \<le> 4 * k"
      using less.prems(3) by presburger
    show ?thesis
    proof (cases "data ! (i + 3) = 0")
      case zero: True
      have eq: "convertLoop pal i data = convertLoop pal (i + 4) data"
        using i3 zero by (rule convertLoop_skip)
      have "length data - (i + 4) < length data - i" using True by simp
      from less.hyps [OF this less.prems(1) less.prems(2) step]
      obtain out where out: "convertLoop pal (i + 4) data = Inr out"
        and len: "length out = length data"
        and before: "\<forall>j < i + 4. out ! j = data ! j"
        and rest: "\<forall>k. i + 4 \<le> 4 * k \<and> 4 * k < length data \<longrightarrow> pixelConverted pal data out k"
        by blast
      have here: "\<And>k. 4 * k = i \<Longrightarrow> pixelConverted pal data out k"
      proof -
        fix k assume k: "4 * k = i"
        have "out ! (4 * k) = data ! (4 * k)" "out ! (4 * k + 1) = data ! (4 * k + 1)"
          "out ! (4 * k + 2) = data ! (4 * k + 2)" "out ! (4 * k + 3) = data ! (4 * k + 3)"
          using before k by simp_all
        moreover have "data ! (4 * k + 3) = 0" using zero k by simp
        ultimately show "pixelConverted pal data out k"
          by (simp only: pixelConverted_def if_True simp_thms)
      qed
      have all: "\<forall>k. i \<le> 4 * k \<and> 4 * k < length data \<longrightarrow> pixelConverted pal data out k"
      proof (intro allI impI)
        fix k assume k: "i \<le> 4 * k \<and> 4 * k < length data"
        show "pixelConverted pal data out k"
        proof (cases "4 * k = i")
          case True
          then show ?thesis by (rule here)
        next
          case False
          then have "i + 4 \<le> 4 * k" using k next_k by blast
          then show ?thesis using rest k by blast
        qed
      qed
      have "\<forall>j < i. out ! j = data ! j" using before by simp
      then show ?thesis using eq out len all by simp
    next
      case nonzero: False
      define sh where "sh = pal ! level (unat (data ! i)) (unat (data ! (i + 1)))
                                   (unat (data ! (i + 2)))"
      define data' where "data' = data[i := clamp8 (r sh), i + 1 := clamp8 (g sh),
                                       i + 2 := clamp8 (b sh)]"
      have eq: "convertLoop pal i data = convertLoop pal (i + 4) data'"
        unfolding data'_def sh_def
        using i3 nonzero less.prems(1) by (rule convertLoop_recolour)
      have len': "length data' = length data" by (simp add: data'_def)
      have d0: "data' ! i = clamp8 (r sh)" using i3 by (simp add: data'_def)
      have d1: "data' ! (i + 1) = clamp8 (g sh)" using i3 by (simp add: data'_def)
      have d2: "data' ! (i + 2) = clamp8 (b sh)" using i3 by (simp add: data'_def)
      have same: "\<And>j. j < i \<or> i + 3 \<le> j \<Longrightarrow> data' ! j = data ! j"
        by (auto simp: data'_def)
      have "length data' - (i + 4) < length data - i" using True len' by simp
      from less.hyps [OF this less.prems(1) _ step] less.prems(2) len'
      obtain out where out: "convertLoop pal (i + 4) data' = Inr out"
        and len: "length out = length data'"
        and before: "\<forall>j < i + 4. out ! j = data' ! j"
        and rest: "\<forall>k. i + 4 \<le> 4 * k \<and> 4 * k < length data' \<longrightarrow> pixelConverted pal data' out k"
        by auto
      have here: "\<And>k. 4 * k = i \<Longrightarrow> pixelConverted pal data out k"
      proof -
        fix k assume k: "4 * k = i"
        have o0: "out ! (4 * k) = clamp8 (r sh)" using before k d0 by simp
        have o1: "out ! (4 * k + 1) = clamp8 (g sh)" using before k d1 by simp
        have o2: "out ! (4 * k + 2) = clamp8 (b sh)" using before k d2 by simp
        have "out ! (4 * k + 3) = data' ! (4 * k + 3)" using before k by simp
        then have o3: "out ! (4 * k + 3) = data ! (4 * k + 3)"
          using same [of "4 * k + 3"] k by simp
        have nz: "data ! (4 * k + 3) \<noteq> 0" using nonzero k by simp
        have shk: "pal ! level (unat (data ! (4 * k))) (unat (data ! (4 * k + 1)))
                      (unat (data ! (4 * k + 2))) = sh"
          using k by (simp add: sh_def)
        show "pixelConverted pal data out k"
          using nz o0 o1 o2 o3 by (simp only: pixelConverted_def shk Let_def if_False simp_thms)
      qed
      have all: "\<forall>k. i \<le> 4 * k \<and> 4 * k < length data \<longrightarrow> pixelConverted pal data out k"
      proof (intro allI impI)
        fix k assume k: "i \<le> 4 * k \<and> 4 * k < length data"
        show "pixelConverted pal data out k"
        proof (cases "4 * k = i")
          case True
          then show ?thesis by (rule here)
        next
          case False
          then have ge: "i + 4 \<le> 4 * k" using k next_k by blast
          then have "pixelConverted pal data' out k" using rest k len' by simp
          moreover have "\<forall>j. 4 * k \<le> j \<and> j \<le> 4 * k + 3 \<longrightarrow> data' ! j = data ! j"
            using ge same by simp
          ultimately show ?thesis
            using pixelConverted_cong [of k data' data pal out] by blast
        qed
      qed
      have "\<forall>j < i. out ! j = data ! j" using before same by simp
      then show ?thesis using eq out len len' all by simp
    qed
  qed
qed

lemma quantize_correct:
  "4 \<le> length pal \<Longrightarrow> length data mod 4 = 0 \<Longrightarrow>
     \<exists>out. quantize pal data = Inr out \<and> length out = length data
           \<and> (\<forall>k. 4 * k < length data \<longrightarrow> pixelConverted pal data out k)"
  using convertLoop_correct [of pal data 0] by (auto simp: quantize_def)





text \<open>
  Claim C2. For a pixel buffer of whole pixels and a palette of at least four entries,
  the loop returns a buffer of the same length in which every pixel whose alpha is \<open>0\<close>
  has the red, green, blue and alpha bytes it had.
\<close>

theorem transparent_pixels_unchanged:
  assumes "4 \<le> length pal" and "length data mod 4 = 0"
  shows "\<exists>out. quantize pal data = Inr out \<and> length out = length data
     \<and> (\<forall>k. 4 * k < length data \<and> data ! (4 * k + 3) = 0 \<longrightarrow>
            out ! (4 * k) = data ! (4 * k) \<and> out ! (4 * k + 1) = data ! (4 * k + 1)
            \<and> out ! (4 * k + 2) = data ! (4 * k + 2)
            \<and> out ! (4 * k + 3) = data ! (4 * k + 3))"
proof -
  from quantize_correct [OF assms]
  obtain out where q: "quantize pal data = Inr out" and len: "length out = length data"
    and px: "\<forall>k. 4 * k < length data \<longrightarrow> pixelConverted pal data out k"
    by blast
  have "\<forall>k. 4 * k < length data \<and> data ! (4 * k + 3) = 0 \<longrightarrow>
            out ! (4 * k) = data ! (4 * k) \<and> out ! (4 * k + 1) = data ! (4 * k + 1)
            \<and> out ! (4 * k + 2) = data ! (4 * k + 2)
            \<and> out ! (4 * k + 3) = data ! (4 * k + 3)"
  proof (intro allI impI)
    fix k assume k: "4 * k < length data \<and> data ! (4 * k + 3) = 0"
    then have "pixelConverted pal data out k" using px by blast
    then show "out ! (4 * k) = data ! (4 * k) \<and> out ! (4 * k + 1) = data ! (4 * k + 1)
            \<and> out ! (4 * k + 2) = data ! (4 * k + 2)
            \<and> out ! (4 * k + 3) = data ! (4 * k + 3)"
      using k by (simp add: pixelConverted_def)
  qed
  then show ?thesis using q len by blast
qed

theorem transparent_pixels_unchanged_witness:
  "4 \<le> length DMG_PALETTE
   \<and> length [10, 20, 30, 0, 200, 200, 200, 255 :: 8 word] mod 4 = 0
   \<and> [10, 20, 30, 0, 200, 200, 200, 255 :: 8 word] ! (4 * 0 + 3) = 0
   \<and> (\<exists>out. quantize DMG_PALETTE [10, 20, 30, 0, 200, 200, 200, 255] = Inr out
         \<and> out ! (4 * 0) = 10 \<and> out ! (4 * 0 + 1) = 20 \<and> out ! (4 * 0 + 2) = 30
         \<and> out ! (4 * 0 + 3) = 0)
   \<and> quantize DMG_PALETTE [10, 20, 30, 0, 200, 200, 200, 255]
       = Inr [10, 20, 30, 0, 155, 188, 15, 255]"
proof -
  let ?D = "[10, 20, 30, 0, 200, 200, 200, 255 :: 8 word]"
  have h1: "4 \<le> length DMG_PALETTE" by (simp add: DMG_PALETTE_def)
  have h2: "length ?D mod 4 = 0" by simp
  have pre: "4 * 0 < length ?D \<and> ?D ! (4 * 0 + 3) = 0" by simp
  have v: "?D ! (4 * 0) = 10" "?D ! (4 * 0 + 1) = 20" "?D ! (4 * 0 + 2) = 30"
    "?D ! (4 * 0 + 3) = 0" by simp_all
  from transparent_pixels_unchanged [OF h1 h2]
  obtain out where q: "quantize DMG_PALETTE ?D = Inr out"
    and al: "\<forall>k. 4 * k < length ?D \<and> ?D ! (4 * k + 3) = 0 \<longrightarrow>
            out ! (4 * k) = ?D ! (4 * k) \<and> out ! (4 * k + 1) = ?D ! (4 * k + 1)
            \<and> out ! (4 * k + 2) = ?D ! (4 * k + 2)
            \<and> out ! (4 * k + 3) = ?D ! (4 * k + 3)"
    by blast
  from al pre have "out ! (4 * 0) = ?D ! (4 * 0) \<and> out ! (4 * 0 + 1) = ?D ! (4 * 0 + 1)
            \<and> out ! (4 * 0 + 2) = ?D ! (4 * 0 + 2)
            \<and> out ! (4 * 0 + 3) = ?D ! (4 * 0 + 3)"
    by blast
  then have c: "out ! (4 * 0) = 10 \<and> out ! (4 * 0 + 1) = 20 \<and> out ! (4 * 0 + 2) = 30
         \<and> out ! (4 * 0 + 3) = 0"
    by (simp only: v)
  have e: "quantize DMG_PALETTE ?D = Inr [10, 20, 30, 0, 155, 188, 15, 255]"
    by code_simp
  show ?thesis
    using h1 h2 pre q c e by blast
qed




end
